theory Spec2Isabelle
  imports Complex_Main "HOL-Library.Sublist" "HOL-Library.Product_Lexorder"
    "HOL-Library.AList" "HOL-Library.Multiset"
begin

section \<open>Conventions\<close>

text \<open>
  The selection-and-resilience layer of the scraper is embedded function by function.
  Python \<open>int\<close> is \<^typ>\<open>int\<close>. Python \<open>float\<close> (rates, token counts, latencies,
  clock readings) is idealised as \<^typ>\<open>real\<close>: arithmetic is exact, rounding is not
  modelled. Every reading of the clock (\<open>time.time()\<close>) is an explicit argument of the
  function that reads it. A method that mutates \<open>self\<close> or an argument returns the
  updated value. A raised exception is a value \<open>Inl e\<close> of a sum type.
\<close>

datatype py_error = ZeroDivisionError

section \<open>rate\_limiter.py: class RateLimiter\<close>

text \<open>
  The three entries of the \<open>stats\<close> dictionary are the fields \<open>total_requests\<close>,
  \<open>blocked_requests\<close> and \<open>backoff_events\<close>.
\<close>

record RateLimiter =
  rate :: real
  tokens :: real
  last_update :: real
  backoff_factor :: real
  max_backoff :: real
  total_requests :: int
  blocked_requests :: int
  backoff_events :: int

text \<open>\<open>__init__(requests_per_second)\<close>; \<open>now\<close> is the clock reading it takes.\<close>

definition RateLimiter_init :: "real \<Rightarrow> real \<Rightarrow> RateLimiter" where
  "RateLimiter_init requests_per_second now =
     \<lparr>rate = requests_per_second, tokens = requests_per_second, last_update = now,
      backoff_factor = 1, max_backoff = 60,
      total_requests = 0, blocked_requests = 0, backoff_events = 0\<rparr>"

text \<open>
  \<open>set_backoff(factor)\<close>: the factor is multiplied in and clamped at \<open>max_backoff\<close>;
  the event counter moves only when the factor really grew.
\<close>

definition set_backoff :: "real \<Rightarrow> RateLimiter \<Rightarrow> RateLimiter" where
  "set_backoff factor rl =
     (let old_factor = backoff_factor rl;
          rl1 = rl\<lparr>backoff_factor := min (max_backoff rl) (backoff_factor rl * factor)\<rparr>
      in if backoff_factor rl1 > old_factor
         then rl1\<lparr>backoff_events := backoff_events rl1 + 1\<rparr>
         else rl1)"

definition trigger_exponential_backoff :: "RateLimiter \<Rightarrow> RateLimiter" where
  "trigger_exponential_backoff rl = set_backoff 2 rl"

definition reset_backoff :: "RateLimiter \<Rightarrow> RateLimiter" where
  "reset_backoff rl = (if backoff_factor rl > 1 then rl\<lparr>backoff_factor := 1\<rparr> else rl)"

text \<open>
  \<open>update_rate(new_rate)\<close>. The rate is stored first. Only the branch for an increase
  divides by the old rate; Python raises there when the old rate is zero.
\<close>

definition update_rate :: "real \<Rightarrow> RateLimiter \<Rightarrow> py_error + RateLimiter" where
  "update_rate new_rate rl =
     (let old_rate = rate rl;
          rl1 = rl\<lparr>rate := new_rate\<rparr>
      in if new_rate > old_rate
         then (if old_rate = 0 then Inl ZeroDivisionError
               else Inr (rl1\<lparr>tokens := min new_rate (tokens rl1 * (new_rate / old_rate))\<rparr>))
         else Inr (rl1\<lparr>tokens := min new_rate (tokens rl1)\<rparr>))"

text \<open>
  The rescaling the specification describes for \<open>update_rate\<close>: proportional in both
  directions, then clamped to the new capacity.
\<close>

definition rescaled_tokens_spec :: "real \<Rightarrow> RateLimiter \<Rightarrow> real" where
  "rescaled_tokens_spec new_rate rl = min new_rate (tokens rl * (new_rate / rate rl))"

text \<open>
  \<open>acquire()\<close>. \<open>now\<close> is the clock reading on entry, \<open>now2\<close> the reading after the
  sleep of the blocked branch. The wait time divides by the rate, so Python raises there
  when the rate is zero.
\<close>

definition refill :: "RateLimiter \<Rightarrow> real \<Rightarrow> RateLimiter" where
  "refill rl now =
     (let time_passed = now - last_update rl
      in rl\<lparr>last_update := now,
            tokens := min (rate rl) (tokens rl + time_passed * rate rl)\<rparr>)"

definition acquire :: "RateLimiter \<Rightarrow> real \<Rightarrow> real \<Rightarrow> py_error + RateLimiter" where
  "acquire rl now now2 =
     (let rl1 = refill (rl\<lparr>total_requests := total_requests rl + 1\<rparr>) now
      in if tokens rl1 \<ge> 1
         then (let rl2 = rl1\<lparr>tokens := tokens rl1 - 1\<rparr>
               in if backoff_factor rl2 > 1
                  then Inr (rl2\<lparr>backoff_factor := max 1 (backoff_factor rl2 * (9 / 10))\<rparr>)
                  else Inr rl2)
         else (let rl2 = rl1\<lparr>blocked_requests := blocked_requests rl1 + 1\<rparr>
               in if rate rl2 = 0 then Inl ZeroDivisionError
                  else (let rl3 = refill rl2 now2
                        in Inr (rl3\<lparr>tokens := tokens rl3 - 1\<rparr>))))"

text \<open>
  The limiters a program can reach through the methods. The source calls \<open>set_backoff\<close>
  only with the factor 2; factors of at least 1 are admitted here.
\<close>

inductive reachable_limiter :: "RateLimiter \<Rightarrow> bool" where
  created: "reachable_limiter (RateLimiter_init requests_per_second now)"
| acquired: "reachable_limiter rl \<Longrightarrow> acquire rl now now2 = Inr rl' \<Longrightarrow> reachable_limiter rl'"
| backed_off: "reachable_limiter rl \<Longrightarrow> 1 \<le> factor \<Longrightarrow> reachable_limiter (set_backoff factor rl)"
| backoff_reset: "reachable_limiter rl \<Longrightarrow> reachable_limiter (reset_backoff rl)"
| rate_updated: "reachable_limiter rl \<Longrightarrow> update_rate new_rate rl = Inr rl' \<Longrightarrow> reachable_limiter rl'"

section \<open>http\_client.py: HTTPClient.\_should\_retry\<close>

text \<open>\<open>max_retries\<close> is \<open>self.config.max_retries\<close>.\<close>

definition should_retry :: "int \<Rightarrow> int \<Rightarrow> int \<Rightarrow> bool" where
  "should_retry max_retries status_code attempt =
     (if attempt \<ge> max_retries then False
      else if 500 \<le> status_code \<and> status_code < 600 then True
      else if status_code = 429 then True
      else if status_code = 408 then True
      else False)"

section \<open>third\_party\_parser.py: ParserInterface and ThirdPartyParserManager\<close>

record ParserInterface =
  name :: string
  url_template :: string
  response_type :: string
  enabled :: bool
  success_count :: int
  failure_count :: int
  total_response_time :: real
  last_success_time :: "real option"
  last_failure_time :: "real option"
  cooldown_until :: "real option"
  consecutive_failures :: int

text \<open>The dataclass constructor with its defaults.\<close>

definition ParserInterface_init :: "string \<Rightarrow> string \<Rightarrow> string \<Rightarrow> ParserInterface" where
  "ParserInterface_init n t r =
     \<lparr>name = n, url_template = t, response_type = r, enabled = True,
      success_count = 0, failure_count = 0, total_response_time = 0,
      last_success_time = None, last_failure_time = None,
      cooldown_until = None, consecutive_failures = 0\<rparr>"

definition get_success_rate :: "ParserInterface \<Rightarrow> real" where
  "get_success_rate p =
     (let total = success_count p + failure_count p
      in if total > 0 then real_of_int (success_count p) / real_of_int total else 1 / 2)"

text \<open>
  The average response time is a float that may be \<open>float('inf')\<close>: a finite value or
  positive infinity, ordered as Python orders them.
\<close>

datatype pyfloat = Fin real | PosInf

instantiation pyfloat :: linorder
begin

fun less_eq_pyfloat :: "pyfloat \<Rightarrow> pyfloat \<Rightarrow> bool" where
  "less_eq_pyfloat (Fin a) (Fin b) = (a \<le> b)"
| "less_eq_pyfloat x PosInf = True"
| "less_eq_pyfloat PosInf (Fin b) = False"

definition less_pyfloat :: "pyfloat \<Rightarrow> pyfloat \<Rightarrow> bool" where
  "less_pyfloat x y = (x \<le> y \<and> \<not> y \<le> x)"

instance
proof
  fix x y z :: pyfloat
  show "(x < y) = (x \<le> y \<and> \<not> y \<le> x)"
    by (simp add: less_pyfloat_def)
  show "x \<le> x"
    by (cases x) simp_all
  show "x \<le> z" if "x \<le> y" and "y \<le> z"
    using that by (cases x; cases y; cases z) simp_all
  show "x = y" if "x \<le> y" and "y \<le> x"
    using that by (cases x; cases y) simp_all
  show "x \<le> y \<or> y \<le> x"
    by (cases x; cases y) auto
qed

end

definition get_average_response_time :: "ParserInterface \<Rightarrow> pyfloat" where
  "get_average_response_time p =
     (if success_count p > 0
      then Fin (total_response_time p / real_of_int (success_count p))
      else PosInf)"

text \<open>\<open>is_in_cooldown()\<close>; \<open>now\<close> is its clock reading.\<close>

definition is_in_cooldown :: "ParserInterface \<Rightarrow> real \<Rightarrow> bool" where
  "is_in_cooldown p now =
     (case cooldown_until p of None \<Rightarrow> False | Some t \<Rightarrow> now < t)"

definition COOLDOWN_BASE :: int where "COOLDOWN_BASE = 60"
definition COOLDOWN_MAX :: int where "COOLDOWN_MAX = 3600"
definition MAX_CONSECUTIVE_FAILURES :: int where "MAX_CONSECUTIVE_FAILURES = 5"

text \<open>
  The manager's state that ranking and bookkeeping use is its list \<open>self.parsers\<close>.
  \<open>get_sorted_parsers\<close> filters it and sorts with Python's \<open>sorted\<close>, a stable sort on
  the key tuple \<open>(-success_rate, average_response_time)\<close>; tuples compare
  lexicographically. \<^const>\<open>sort_key\<close> is a stable sort as well, and a stable sort by a
  linearly ordered key has one possible result. The clock is read once per parser in the
  source; the model uses one reading \<open>now\<close> for the whole call.
\<close>

definition rank_key :: "ParserInterface \<Rightarrow> real \<times> pyfloat" where
  "rank_key p = (- get_success_rate p, get_average_response_time p)"

definition get_sorted_parsers :: "ParserInterface list \<Rightarrow> real \<Rightarrow> ParserInterface list" where
  "get_sorted_parsers parsers now =
     (let available_parsers = filter (\<lambda>p. enabled p \<and> \<not> is_in_cooldown p now) parsers
      in sort_key rank_key available_parsers)"

text \<open>\<open>_record_success(parser, response_time)\<close>; \<open>now\<close> is its clock reading.\<close>

definition record_success :: "ParserInterface \<Rightarrow> real \<Rightarrow> real \<Rightarrow> ParserInterface" where
  "record_success p response_time now =
     p\<lparr>success_count := success_count p + 1,
       total_response_time := total_response_time p + response_time,
       last_success_time := Some now,
       consecutive_failures := 0,
       cooldown_until := None\<rparr>"

text \<open>
  The local \<open>cooldown_time\<close> of \<open>_record_failure\<close>, as a function of the incremented
  counter. It is computed only when the counter has reached the threshold, so the
  exponent is never negative there.
\<close>

definition cooldown_time :: "int \<Rightarrow> int" where
  "cooldown_time cf =
     min (COOLDOWN_BASE * 2 ^ nat (cf - MAX_CONSECUTIVE_FAILURES)) COOLDOWN_MAX"

text \<open>
  \<open>_record_failure(parser)\<close> reads the clock twice: \<open>now1\<close> for \<open>last_failure_time\<close>,
  \<open>now2\<close> for the start of the cooldown.
\<close>

definition record_failure :: "ParserInterface \<Rightarrow> real \<Rightarrow> real \<Rightarrow> ParserInterface" where
  "record_failure p now1 now2 =
     (let p1 = p\<lparr>failure_count := failure_count p + 1,
                 last_failure_time := Some now1,
                 consecutive_failures := consecutive_failures p + 1\<rparr>
      in if consecutive_failures p1 \<ge> MAX_CONSECUTIVE_FAILURES
         then p1\<lparr>cooldown_until := Some (now2 + real_of_int (cooldown_time (consecutive_failures p1)))\<rparr>
         else p1)"

text \<open>A run of \<open>_record_failure\<close> calls, one pair of clock readings per call.\<close>

fun record_failures :: "ParserInterface \<Rightarrow> (real \<times> real) list \<Rightarrow> ParserInterface" where
  "record_failures p [] = p"
| "record_failures p ((now1, now2) # ts) = record_failures (record_failure p now1 now2) ts"

subsection \<open>validate\_play\_url\<close>

text \<open>
  Strings are lists of 8-bit characters, read as the code points 0 to 255.
  \<open>str.lower()\<close> on these moves A to Z and the capital letters of Latin-1 (192 to 222
  but for the multiplication sign 215) up by 32 and keeps every other character.
\<close>

definition lower_char :: "char \<Rightarrow> char" where
  "lower_char c =
     (let n = (of_char c :: nat)
      in if (65 \<le> n \<and> n \<le> 90) \<or> (192 \<le> n \<and> n \<le> 222 \<and> n \<noteq> 215)
         then char_of (n + 32) else c)"

definition str_lower :: "string \<Rightarrow> string" where
  "str_lower s = map lower_char s"

text \<open>\<open>s.startswith(pre)\<close>, and \<open>sub in s\<close> for strings: a scan for a matching position.\<close>

definition startswith :: "string \<Rightarrow> string \<Rightarrow> bool" where
  "startswith s pre = prefix pre s"

fun str_in :: "string \<Rightarrow> string \<Rightarrow> bool" where
  "str_in sub [] = (sub = [])"
| "str_in sub (c # cs) = (prefix sub (c # cs) \<or> str_in sub cs)"

definition valid_extensions :: "string list" where
  "valid_extensions = [''.m3u8'', ''.mp4'', ''.flv'', ''.ts'']"

definition valid_protocols :: "string list" where
  "valid_protocols = [''/m3u8/'', ''/mp4/'', ''/flv/'', ''/hls/'', ''/dash/'']"

text \<open>
  The characters \<open><\<close>, \<open>>\<close>, the double quote (0x22), the single quote (0x27), newline,
  carriage return and tab.
\<close>

definition invalid_chars :: "char list" where
  "invalid_chars = [CHR ''<'', CHR ''>'', CHR 0x22, CHR 0x27, CHR 0x0A, CHR 0x0D, CHR 0x09]"

text \<open>
  \<open>validate_play_url(url)\<close>, check by check in the source's order. The argument is a
  string, so of the first test only \<open>not url\<close> remains.
\<close>

definition validate_play_url :: "string \<Rightarrow> bool" where
  "validate_play_url url =
     (if url = [] then False
      else if \<not> (startswith url ''http://'' \<or> startswith url ''https://'') then False
      else
        let url_lower = str_lower url;
            has_valid_format =
              (list_ex (\<lambda>ext. str_in ext url_lower) valid_extensions
               \<or> list_ex (\<lambda>proto. str_in proto url_lower) valid_protocols)
        in if \<not> has_valid_format then False
           else if length url < 20 \<or> length url > 2000 then False
           else if list_ex (\<lambda>char. char \<in> set url) invalid_chars then False
           else True)"

section \<open>proxy\_manager.py: ProxyInfo and ProxyManager\<close>

datatype ProxyStatus = ACTIVE | FAILED | BANNED | CHECKING

record ProxyInfo =
  url :: string
  status :: ProxyStatus
  last_check :: real
  failure_count :: int
  success_count :: int
  response_time :: real

definition ProxyInfo_init :: "string \<Rightarrow> ProxyInfo" where
  "ProxyInfo_init u =
     \<lparr>url = u, status = ACTIVE, last_check = 0, failure_count = 0, success_count = 0,
      response_time = 0\<rparr>"

definition success_rate :: "ProxyInfo \<Rightarrow> real" where
  "success_rate info =
     (let total = success_count info + failure_count info
      in if total > 0 then real_of_int (success_count info) / real_of_int total else 0)"

text \<open>
  \<open>self.proxies\<close> is a dictionary from the proxy URL to its \<open>ProxyInfo\<close>. Selection
  walks its values in insertion order, so it is an association list with the operations
  of the library's \<open>AList\<close>: an update of a present key keeps its place, a new key goes
  to the end.
\<close>

record ProxyManager =
  proxies :: "(string \<times> ProxyInfo) list"
  check_interval :: int
  banned_ips :: "string set"

definition ProxyManager_init :: "string list \<Rightarrow> int \<Rightarrow> ProxyManager" where
  "ProxyManager_init ps interval =
     \<lparr>proxies = foldl (\<lambda>d proxy. AList.update proxy (ProxyInfo_init proxy) d) [] ps,
      check_interval = interval,
      banned_ips = {}\<rparr>"

text \<open>
  \<open>_check_proxy(proxy_info)\<close> is a coroutine. Before it waits for the network it marks the
  proxy as being checked; when the request is over it books the outcome: status 200, or
  anything else that raises an \<open>Exception\<close> (another status, a timeout, a connection
  error), each with the time the request took. A probe that is cancelled while it waits
  (\<open>stop_health_check\<close>) raises \<open>asyncio.CancelledError\<close>, which \<open>except Exception\<close>
  does not catch: nothing more is written and the status stays CHECKING. The two halves
  are separate steps, since other calls can run between them and act on the same
  \<open>ProxyInfo\<close> object; \<open>check_proxy\<close> is a probe nothing interleaves with.
\<close>

datatype probe_result = ProbeOk real | ProbeFailed real | ProbeCancelled

definition check_proxy_begin :: "ProxyInfo \<Rightarrow> real \<Rightarrow> ProxyInfo" where
  "check_proxy_begin info now = info\<lparr>status := CHECKING, last_check := now\<rparr>"

definition check_proxy_end :: "ProxyInfo \<Rightarrow> probe_result \<Rightarrow> ProxyInfo" where
  "check_proxy_end info res =
     (case res of
        ProbeOk elapsed \<Rightarrow>
          info\<lparr>response_time := elapsed,
               success_count := success_count info + 1,
               failure_count := 0,
               status := ACTIVE\<rparr>
      | ProbeFailed elapsed \<Rightarrow>
          (let info1 = info\<lparr>failure_count := failure_count info + 1,
                            response_time := elapsed\<rparr>
           in if failure_count info1 \<ge> 3
              then info1\<lparr>status := FAILED\<rparr>
              else info1\<lparr>status := ACTIVE\<rparr>)
      | ProbeCancelled \<Rightarrow> info)"

definition check_proxy :: "ProxyInfo \<Rightarrow> real \<Rightarrow> probe_result \<Rightarrow> ProxyInfo" where
  "check_proxy info now res = check_proxy_end (check_proxy_begin info now) res"

text \<open>
  \<open>_check_all_proxies()\<close> probes every proxy whose last check is older than the interval,
  whatever its status. \<open>results\<close> gives the outcome of the request through each proxy
  (status 200, a failure, or cancellation); \<open>now\<close> is the clock reading. This is a round
  of checks with no other call between the halves of its probes; a call that falls
  between them meets \<open>check_proxy_begin\<close> before and \<open>check_proxy_end\<close> after it.
\<close>

definition check_due :: "ProxyManager \<Rightarrow> real \<Rightarrow> ProxyInfo \<Rightarrow> bool" where
  "check_due m now info \<longleftrightarrow> now - last_check info > real_of_int (check_interval m)"

definition check_all_proxies ::
  "ProxyManager \<Rightarrow> real \<Rightarrow> (string \<Rightarrow> probe_result) \<Rightarrow> ProxyManager" where
  "check_all_proxies m now results =
     m\<lparr>proxies :=
         map (\<lambda>(k, info).
                (k, if check_due m now info
                    then check_proxy info now (results (url info)) else info))
           (proxies m)\<rparr>"

text \<open>
  \<open>get_active_proxy()\<close>. \<open>list.sort(key=..., reverse=True)\<close> reverses the list, sorts it
  stably in ascending order and reverses it again. \<open>random.choice\<close> draws an index below
  the length of \<open>top_proxies\<close>, each with the same probability; the draw is the argument
  \<open>r\<close>.
\<close>

definition active_proxies :: "ProxyManager \<Rightarrow> ProxyInfo list" where
  "active_proxies m = filter (\<lambda>info. status info = ACTIVE) (map snd (proxies m))"

definition select_key :: "ProxyInfo \<Rightarrow> real \<times> real" where
  "select_key p = (success_rate p, - response_time p)"

definition sort_reverse :: "('a \<Rightarrow> 'k::linorder) \<Rightarrow> 'a list \<Rightarrow> 'a list" where
  "sort_reverse f xs = rev (sort_key f (rev xs))"

definition ranked_proxies :: "ProxyManager \<Rightarrow> ProxyInfo list" where
  "ranked_proxies m = sort_reverse select_key (active_proxies m)"

definition top_proxies :: "ProxyManager \<Rightarrow> ProxyInfo list" where
  "top_proxies m =
     take (max 1 (length (ranked_proxies m) div 2)) (ranked_proxies m)"

definition get_active_proxy :: "ProxyManager \<Rightarrow> nat \<Rightarrow> string option" where
  "get_active_proxy m r =
     (if active_proxies m = [] then None
      else Some (url (top_proxies m ! r)))"

text \<open>
  The bodies of \<open>mark_proxy_banned\<close>, \<open>mark_proxy_failed\<close> and \<open>reset_proxy\<close> on the
  \<open>ProxyInfo\<close> they look up, and the methods themselves. A URL that is not a key leaves
  the dictionary as it is. \<open>if ip:\<close> holds for a string that is not empty.
\<close>

definition info_banned :: "ProxyInfo \<Rightarrow> ProxyInfo" where
  "info_banned info = info\<lparr>status := BANNED\<rparr>"

definition info_failed :: "ProxyInfo \<Rightarrow> ProxyInfo" where
  "info_failed info =
     (let info1 = info\<lparr>failure_count := failure_count info + 1\<rparr>
      in if failure_count info1 \<ge> 3 then info1\<lparr>status := FAILED\<rparr> else info1)"

definition info_reset :: "ProxyInfo \<Rightarrow> ProxyInfo" where
  "info_reset info = info\<lparr>status := ACTIVE, failure_count := 0, last_check := 0\<rparr>"

definition mark_proxy_banned :: "ProxyManager \<Rightarrow> string \<Rightarrow> string option \<Rightarrow> ProxyManager" where
  "mark_proxy_banned m proxy_url ip =
     (let m1 = m\<lparr>proxies := AList.map_entry proxy_url info_banned (proxies m)\<rparr>
      in case ip of
           None \<Rightarrow> m1
         | Some a \<Rightarrow> if a \<noteq> [] then m1\<lparr>banned_ips := insert a (banned_ips m1)\<rparr> else m1)"

definition mark_proxy_failed :: "ProxyManager \<Rightarrow> string \<Rightarrow> ProxyManager" where
  "mark_proxy_failed m proxy_url =
     m\<lparr>proxies := AList.map_entry proxy_url info_failed (proxies m)\<rparr>"

definition reset_proxy :: "ProxyManager \<Rightarrow> string \<Rightarrow> ProxyManager" where
  "reset_proxy m proxy_url =
     m\<lparr>proxies := AList.map_entry proxy_url info_reset (proxies m)\<rparr>"

definition add_proxy :: "ProxyManager \<Rightarrow> string \<Rightarrow> ProxyManager" where
  "add_proxy m proxy_url =
     (if proxy_url \<notin> fst ` set (proxies m)
      then m\<lparr>proxies := AList.update proxy_url (ProxyInfo_init proxy_url) (proxies m)\<rparr>
      else m)"

definition remove_proxy :: "ProxyManager \<Rightarrow> string \<Rightarrow> ProxyManager" where
  "remove_proxy m proxy_url =
     (if proxy_url \<in> fst ` set (proxies m)
      then m\<lparr>proxies := AList.delete proxy_url (proxies m)\<rparr>
      else m)"

text \<open>The status the manager holds for a URL, if it is a key.\<close>

definition status_of :: "ProxyManager \<Rightarrow> string \<Rightarrow> ProxyStatus option" where
  "status_of m u = map_option status (map_of (proxies m) u)"

text \<open>
  What the dictionary is by construction: one entry per key, each \<open>ProxyInfo\<close> filed
  under its own URL.
\<close>

definition wf_manager :: "ProxyManager \<Rightarrow> bool" where
  "wf_manager m \<longleftrightarrow>
     distinct (map fst (proxies m)) \<and> list_all (\<lambda>(k, info). url info = k) (proxies m)"

text \<open>
  The events in the life of one proxy, for the bookkeeping of its counters: the two
  halves of a probe, a failure reported by the HTTP client, a ban, a manual reset.
\<close>

datatype proxy_event =
  ProbeBegin real | ProbeEnd probe_result | MarkFailed | MarkBanned | Reset

fun proxy_step :: "ProxyInfo \<Rightarrow> proxy_event \<Rightarrow> ProxyInfo" where
  "proxy_step info (ProbeBegin now) = check_proxy_begin info now"
| "proxy_step info (ProbeEnd res) = check_proxy_end info res"
| "proxy_step info MarkFailed = info_failed info"
| "proxy_step info MarkBanned = info_banned info"
| "proxy_step info Reset = info_reset info"

definition proxy_run :: "ProxyInfo \<Rightarrow> proxy_event list \<Rightarrow> ProxyInfo" where
  "proxy_run info evs = foldl proxy_step info evs"

fun is_failure :: "proxy_event \<Rightarrow> bool" where
  "is_failure (ProbeEnd (ProbeFailed elapsed)) = True"
| "is_failure MarkFailed = True"
| "is_failure e = False"

fun is_success :: "proxy_event \<Rightarrow> bool" where
  "is_success (ProbeEnd (ProbeOk elapsed)) = True"
| "is_success e = False"

text \<open>
  The number of failures recorded after the last successful probe, and the number
  recorded after the last successful probe or manual reset.
\<close>

definition failures_since_success :: "proxy_event list \<Rightarrow> nat" where
  "failures_since_success evs =
     length (filter is_failure (takeWhile (\<lambda>e. \<not> is_success e) (rev evs)))"

definition failures_since_success_or_reset :: "proxy_event list \<Rightarrow> nat" where
  "failures_since_success_or_reset evs =
     length (filter is_failure (takeWhile (\<lambda>e. \<not> is_success e \<and> e \<noteq> Reset) (rev evs)))"

subsection \<open>Example states\<close>

text \<open>Three proxies, all selectable, with different records.\<close>

definition three_proxies :: ProxyManager where
  "three_proxies =
     \<lparr>proxies =
        [(''http://p1:8080'', (ProxyInfo_init ''http://p1:8080'')
            \<lparr>success_count := 1, failure_count := 1, response_time := 1 / 2\<rparr>),
         (''http://p2:8080'', (ProxyInfo_init ''http://p2:8080'')
            \<lparr>success_count := 3, response_time := 1\<rparr>),
         (''http://p3:8080'', ProxyInfo_init ''http://p3:8080'')],
      check_interval = 300, banned_ips = {}\<rparr>"

text \<open>A manager with one proxy, banned right after construction.\<close>

definition banned_manager :: ProxyManager where
  "banned_manager =
     mark_proxy_banned (ProxyManager_init [''http://p1:8080''] 300) ''http://p1:8080'' None"

text \<open>The three proxies after a ban of the second, which had the best record.\<close>

definition banned_among_three :: ProxyManager where
  "banned_among_three = mark_proxy_banned three_proxies ''http://p2:8080'' None"

section \<open>Results: RateLimiter\<close>

lemma set_backoff_factor:
  "backoff_factor (set_backoff f rl) = min (max_backoff rl) (backoff_factor rl * f)"
  by (simp add: set_backoff_def Let_def)

lemma trigger_at_max_id:
  assumes "0 < backoff_factor rl" and "backoff_factor rl = max_backoff rl"
  shows "trigger_exponential_backoff rl = rl"
  using assms by (simp add: trigger_exponential_backoff_def set_backoff_def Let_def min_def)

lemma trigger_at_max_iter:
  assumes "0 < backoff_factor rl" and "backoff_factor rl = max_backoff rl"
  shows "(trigger_exponential_backoff ^^ n) rl = rl"
  by (induction n) (simp_all add: trigger_at_max_id [OF assms])

text \<open>
  In every reachable limiter the backoff factor lies between 1 and \<open>max_backoff\<close>, which
  stays 60: the hypothesis of the next theorem holds in all of them.
\<close>

lemma reachable_limiter_backoff:
  assumes "reachable_limiter rl"
  shows "1 \<le> backoff_factor rl \<and> backoff_factor rl \<le> max_backoff rl \<and> max_backoff rl = 60"
  using assms
proof (induction rule: reachable_limiter.induct)
  case (created requests_per_second now)
  show ?case by (simp add: RateLimiter_init_def)
next
  case (acquired rl now now2 rl')
  then show ?case
    by (auto simp: acquire_def refill_def Let_def split: if_splits)
next
  case (backed_off rl factor)
  then have "1 \<le> backoff_factor rl * factor"
    using mult_mono [of 1 "backoff_factor rl" 1 factor] by simp
  with backed_off show ?case
    by (simp add: set_backoff_factor set_backoff_def Let_def)
next
  case (backoff_reset rl)
  then show ?case by (simp add: reset_backoff_def)
next
  case (rate_updated rl new_rate rl')
  then show ?case
    by (auto simp: update_rate_def Let_def split: if_splits)
qed

text \<open>
  C8. In a limiter whose backoff factor is positive (every reachable limiter keeps it at
  1 or above), \<open>trigger_exponential_backoff\<close> sets the factor to its double clamped at
  \<open>max_backoff\<close>; below \<open>max_backoff\<close> that is a strict increase, and once the factor
  equals \<open>max_backoff\<close> one call, and any number of further calls, leave the whole
  limiter as it is.
\<close>

theorem trigger_exponential_backoff_progress:
  assumes "0 < backoff_factor rl"
  shows "backoff_factor (trigger_exponential_backoff rl)
           = min (max_backoff rl) (2 * backoff_factor rl)
         \<and> (backoff_factor rl < max_backoff rl \<longrightarrow>
              backoff_factor rl < backoff_factor (trigger_exponential_backoff rl))
         \<and> (backoff_factor rl = max_backoff rl \<longrightarrow>
              (trigger_exponential_backoff ^^ n) rl = rl)"
proof (intro conjI impI)
  show "backoff_factor (trigger_exponential_backoff rl)
          = min (max_backoff rl) (2 * backoff_factor rl)"
    by (simp add: trigger_exponential_backoff_def set_backoff_factor mult.commute)
  show "backoff_factor rl < backoff_factor (trigger_exponential_backoff rl)"
    if "backoff_factor rl < max_backoff rl"
    using that assms by (simp add: trigger_exponential_backoff_def set_backoff_factor)
  show "(trigger_exponential_backoff ^^ n) rl = rl" if "backoff_factor rl = max_backoff rl"
    using assms that by (rule trigger_at_max_iter)
qed

theorem trigger_exponential_backoff_progress_witness:
  "backoff_factor (trigger_exponential_backoff (RateLimiter_init 2 0)) = 2
   \<and> backoff_factor (RateLimiter_init 2 0)
       < backoff_factor (trigger_exponential_backoff (RateLimiter_init 2 0))
   \<and> (trigger_exponential_backoff ^^ 3) ((RateLimiter_init 2 0)\<lparr>backoff_factor := 60\<rparr>)
       = (RateLimiter_init 2 0)\<lparr>backoff_factor := 60\<rparr>"
proof -
  have p1: "0 < backoff_factor (RateLimiter_init 2 0)"
    by (simp add: RateLimiter_init_def)
  have p2: "0 < backoff_factor ((RateLimiter_init 2 0)\<lparr>backoff_factor := 60\<rparr>)"
    by simp
  from trigger_exponential_backoff_progress [OF p1, of 0]
  have a: "backoff_factor (trigger_exponential_backoff (RateLimiter_init 2 0)) = 2
      \<and> backoff_factor (RateLimiter_init 2 0)
          < backoff_factor (trigger_exponential_backoff (RateLimiter_init 2 0))"
    by (simp add: RateLimiter_init_def)
  from trigger_exponential_backoff_progress [OF p2, of 3]
  have "(trigger_exponential_backoff ^^ 3) ((RateLimiter_init 2 0)\<lparr>backoff_factor := 60\<rparr>)
       = (RateLimiter_init 2 0)\<lparr>backoff_factor := 60\<rparr>"
    by (simp add: RateLimiter_init_def)
  with a show ?thesis by blast
qed

text \<open>
  C3 as stated fails for a decrease: from rate 4 with 2 tokens, \<open>update_rate(2)\<close> leaves
  2 tokens, while the proportional rescaling gives 1.
\<close>

theorem update_rate_decrease_counterexample:
  "update_rate 2 ((RateLimiter_init 4 0)\<lparr>tokens := 2\<rparr>)
     = Inr ((RateLimiter_init 4 0)\<lparr>rate := 2, tokens := 2\<rparr>)
   \<and> rescaled_tokens_spec 2 ((RateLimiter_init 4 0)\<lparr>tokens := 2\<rparr>) = 1
   \<and> tokens ((RateLimiter_init 4 0)\<lparr>rate := 2, tokens := 2\<rparr>)
       \<noteq> rescaled_tokens_spec 2 ((RateLimiter_init 4 0)\<lparr>tokens := 2\<rparr>)"
  by (simp add: update_rate_def rescaled_tokens_spec_def RateLimiter_init_def Let_def)

text \<open>
  C3, amended. With an old rate above 0, \<open>update_rate\<close> returns normally and stores the
  new rate; for an increase the tokens are rescaled by \<open>new / old\<close> and clamped to the
  new rate; for a decrease (or an equal rate) they are only clamped to the new rate,
  not rescaled. Nothing else in the limiter changes.
\<close>

theorem update_rate_tokens:
  assumes "0 < rate rl" and "0 < new_rate"
  shows "\<exists>rl'. update_rate new_rate rl = Inr rl'
           \<and> rate rl' = new_rate
           \<and> (new_rate > rate rl \<longrightarrow>
                tokens rl' = min new_rate (tokens rl * (new_rate / rate rl)))
           \<and> (new_rate \<le> rate rl \<longrightarrow> tokens rl' = min new_rate (tokens rl))
           \<and> rl' = rl\<lparr>rate := new_rate, tokens := tokens rl'\<rparr>"
  using assms by (auto simp: update_rate_def Let_def)

theorem update_rate_tokens_witness:
  "update_rate 4 ((RateLimiter_init 2 0)\<lparr>tokens := 1\<rparr>)
     = Inr ((RateLimiter_init 2 0)\<lparr>rate := 4, tokens := 2\<rparr>)
   \<and> update_rate 1 ((RateLimiter_init 2 0)\<lparr>tokens := 3 / 2\<rparr>)
     = Inr ((RateLimiter_init 2 0)\<lparr>rate := 1, tokens := 1\<rparr>)"
proof -
  let ?a = "(RateLimiter_init 2 0)\<lparr>tokens := 1\<rparr>"
  let ?b = "(RateLimiter_init 2 0)\<lparr>tokens := 3 / 2\<rparr>"
  have ra: "0 < rate ?a" and rb: "0 < rate ?b"
    by (simp_all add: RateLimiter_init_def)
  from update_rate_tokens [OF ra, of 4] obtain a' where
    a: "update_rate 4 ?a = Inr a'" "a' = ?a\<lparr>rate := 4, tokens := tokens a'\<rparr>"
      "4 > rate ?a \<longrightarrow> tokens a' = min 4 (tokens ?a * (4 / rate ?a))"
    by auto
  from update_rate_tokens [OF rb, of 1] obtain b' where
    b: "update_rate 1 ?b = Inr b'" "b' = ?b\<lparr>rate := 1, tokens := tokens b'\<rparr>"
      "1 \<le> rate ?b \<longrightarrow> tokens b' = min 1 (tokens ?b)"
    by auto
  from a(3) have ta: "tokens a' = 2" by (simp add: RateLimiter_init_def)
  from b(3) have tb: "tokens b' = 1" by (simp add: RateLimiter_init_def)
  from a(1,2) ta have "update_rate 4 ?a = Inr ((RateLimiter_init 2 0)\<lparr>rate := 4, tokens := 2\<rparr>)"
    by (simp add: RateLimiter_init_def)
  moreover from b(1,2) tb
  have "update_rate 1 ?b = Inr ((RateLimiter_init 2 0)\<lparr>rate := 1, tokens := 1\<rparr>)"
    by (simp add: RateLimiter_init_def)
  ultimately show ?thesis by blast
qed

section \<open>Results: retry predicate\<close>

text \<open>
  C9. The retry predicate is true exactly when the attempt count is below
  \<open>max_retries\<close> and the status code is 408, 429 or in 500..599.
\<close>

theorem should_retry_iff:
  "should_retry max_retries c a
     = (a < max_retries \<and> (c \<in> {408, 429} \<or> (500 \<le> c \<and> c \<le> 599)))"
  by (auto simp: should_retry_def)

section \<open>Results: relay pool ledger\<close>

text \<open>
  C7. \<open>_record_success\<close> adds one to \<open>success_count\<close>, adds the latency to the total,
  resets \<open>consecutive_failures\<close> to 0 and clears \<open>cooldown_until\<close>; the parser is then
  not in cooldown at any clock reading, is still enabled or disabled as before, and its
  failure count is untouched.
\<close>

theorem record_success_effect:
  "ParserInterface.success_count (record_success p latency now)
     = ParserInterface.success_count p + 1
   \<and> total_response_time (record_success p latency now) = total_response_time p + latency
   \<and> consecutive_failures (record_success p latency now) = 0
   \<and> cooldown_until (record_success p latency now) = None
   \<and> ParserInterface.failure_count (record_success p latency now)
       = ParserInterface.failure_count p
   \<and> \<not> is_in_cooldown (record_success p latency now) t"
  by (simp add: record_success_def is_in_cooldown_def)

lemma cooldown_time_le_max: "cooldown_time cf \<le> COOLDOWN_MAX"
  by (simp add: cooldown_time_def)

lemma cooldown_time_mono:
  assumes "a \<le> b"
  shows "cooldown_time a \<le> cooldown_time b"
proof -
  from assms have "nat (a - MAX_CONSECUTIVE_FAILURES) \<le> nat (b - MAX_CONSECUTIVE_FAILURES)"
    by simp
  then have "(2::int) ^ nat (a - MAX_CONSECUTIVE_FAILURES) \<le> 2 ^ nat (b - MAX_CONSECUTIVE_FAILURES)"
    by (rule power_increasing) simp
  then have "COOLDOWN_BASE * 2 ^ nat (a - MAX_CONSECUTIVE_FAILURES)
               \<le> COOLDOWN_BASE * 2 ^ nat (b - MAX_CONSECUTIVE_FAILURES)"
    by (simp add: COOLDOWN_BASE_def)
  then show ?thesis
    unfolding cooldown_time_def by (rule min.mono) simp
qed

lemma record_failure_counters:
  "ParserInterface.failure_count (record_failure p n1 n2) = ParserInterface.failure_count p + 1"
  "consecutive_failures (record_failure p n1 n2) = consecutive_failures p + 1"
  by (simp_all add: record_failure_def Let_def)

lemma record_failure_cooldown:
  "cooldown_until (record_failure p n1 n2)
     = (if consecutive_failures p + 1 \<ge> MAX_CONSECUTIVE_FAILURES
        then Some (n2 + real_of_int (cooldown_time (consecutive_failures p + 1)))
        else cooldown_until p)"
  by (simp add: record_failure_def Let_def)

lemma record_failures_snoc:
  "record_failures p (ts @ [(n1, n2)]) = record_failure (record_failures p ts) n1 n2"
  by (induction p ts rule: record_failures.induct) simp_all

lemma record_failures_consecutive:
  "consecutive_failures (record_failures p ts) = consecutive_failures p + int (length ts)"
  by (induction p ts rule: record_failures.induct) (simp_all add: record_failure_counters)

lemma record_failures_below_threshold:
  assumes "consecutive_failures p + int (length ts) < MAX_CONSECUTIVE_FAILURES"
  shows "cooldown_until (record_failures p ts) = cooldown_until p"
  using assms
proof (induction p ts rule: record_failures.induct)
  case (1 p)
  then show ?case by simp
next
  case (2 p now1 now2 ts)
  then show ?case
    by (simp add: record_failure_cooldown record_failure_counters)
qed

text \<open>
  C4. Each \<open>_record_failure\<close> adds one to \<open>failure_count\<close> and to
  \<open>consecutive_failures\<close>; when the new counter has reached the threshold it sets
  \<open>cooldown_until\<close> to the clock reading plus
  \<open>min (BASE * 2 ^ (consecutive_failures - THRESHOLD)) MAX\<close>, and below the threshold it
  leaves \<open>cooldown_until\<close> alone. From a parser with no consecutive failures and no
  cooldown, fewer than THRESHOLD calls leave it out of cooldown, and exactly THRESHOLD
  calls put it in cooldown at every clock reading earlier than the last call's reading
  plus BASE seconds, so also at once. The cooldown duration is monotone in the counter and never above MAX.
\<close>

theorem record_failure_cooldown_schedule:
  "ParserInterface.failure_count (record_failure p now1 now2)
     = ParserInterface.failure_count p + 1
   \<and> consecutive_failures (record_failure p now1 now2) = consecutive_failures p + 1
   \<and> (consecutive_failures (record_failure p now1 now2) \<ge> MAX_CONSECUTIVE_FAILURES \<longrightarrow>
        cooldown_until (record_failure p now1 now2)
          = Some (now2 + real_of_int (min (COOLDOWN_BASE
                * 2 ^ nat (consecutive_failures (record_failure p now1 now2)
                            - MAX_CONSECUTIVE_FAILURES)) COOLDOWN_MAX)))
   \<and> (consecutive_failures (record_failure p now1 now2) < MAX_CONSECUTIVE_FAILURES \<longrightarrow>
        cooldown_until (record_failure p now1 now2) = cooldown_until p)
   \<and> (consecutive_failures p = 0 \<and> cooldown_until p = None
        \<and> int (length ts) < MAX_CONSECUTIVE_FAILURES \<longrightarrow>
        \<not> is_in_cooldown (record_failures p ts) t)
   \<and> (consecutive_failures p = 0 \<and> int (length ts) + 1 = MAX_CONSECUTIVE_FAILURES
        \<and> t < now2 + real_of_int COOLDOWN_BASE \<longrightarrow>
        is_in_cooldown (record_failures p (ts @ [(now1, now2)])) t)
   \<and> (a \<le> b \<longrightarrow> cooldown_time a \<le> cooldown_time b)
   \<and> cooldown_time a \<le> COOLDOWN_MAX"
proof (intro conjI impI)
  let ?q = "record_failure p now1 now2"
  show "ParserInterface.failure_count ?q = ParserInterface.failure_count p + 1"
    by (rule record_failure_counters)
  show "consecutive_failures ?q = consecutive_failures p + 1"
    by (rule record_failure_counters)
  show "cooldown_until ?q
          = Some (now2 + real_of_int (min (COOLDOWN_BASE
                * 2 ^ nat (consecutive_failures ?q - MAX_CONSECUTIVE_FAILURES)) COOLDOWN_MAX))"
    if "consecutive_failures ?q \<ge> MAX_CONSECUTIVE_FAILURES"
    using that
    by (simp add: record_failure_cooldown record_failure_counters cooldown_time_def)
  show "cooldown_until ?q = cooldown_until p"
    if "consecutive_failures ?q < MAX_CONSECUTIVE_FAILURES"
    using that by (simp add: record_failure_cooldown record_failure_counters)
  show "\<not> is_in_cooldown (record_failures p ts) t"
    if "consecutive_failures p = 0 \<and> cooldown_until p = None
          \<and> int (length ts) < MAX_CONSECUTIVE_FAILURES"
  proof -
    from that have "cooldown_until (record_failures p ts) = cooldown_until p"
      by (intro record_failures_below_threshold) simp
    with that show ?thesis by (simp add: is_in_cooldown_def)
  qed
  show "is_in_cooldown (record_failures p (ts @ [(now1, now2)])) t"
    if h: "consecutive_failures p = 0 \<and> int (length ts) + 1 = MAX_CONSECUTIVE_FAILURES
          \<and> t < now2 + real_of_int COOLDOWN_BASE"
  proof -
    let ?r = "record_failures p ts"
    from h have cf: "consecutive_failures ?r + 1 = MAX_CONSECUTIVE_FAILURES"
      by (simp add: record_failures_consecutive)
    then have "cooldown_until (record_failure ?r now1 now2)
                 = Some (now2 + real_of_int (cooldown_time MAX_CONSECUTIVE_FAILURES))"
      by (simp add: record_failure_cooldown)
    moreover have "cooldown_time MAX_CONSECUTIVE_FAILURES = COOLDOWN_BASE"
      by (simp add: cooldown_time_def COOLDOWN_BASE_def COOLDOWN_MAX_def)
    ultimately show ?thesis
      using h by (simp add: record_failures_snoc is_in_cooldown_def)
  qed
  show "cooldown_time a \<le> cooldown_time b" if "a \<le> b"
    using that by (rule cooldown_time_mono)
  show "cooldown_time a \<le> COOLDOWN_MAX"
    by (rule cooldown_time_le_max)
qed

theorem record_failure_cooldown_schedule_witness:
  "is_in_cooldown (record_failures (ParserInterface_init ''a'' ''https://a/?url={url}'' ''html'')
       [(1, 1), (2, 2), (3, 3), (4, 4), (5, 5)]) 5
   \<and> \<not> is_in_cooldown (record_failures (ParserInterface_init ''a'' ''https://a/?url={url}'' ''html'')
       [(1, 1), (2, 2), (3, 3), (4, 4)]) 5
   \<and> cooldown_until (record_failure ((ParserInterface_init ''a'' ''https://a/?url={url}'' ''html'')
         \<lparr>consecutive_failures := 6\<rparr>) 5 5) = Some 245
   \<and> cooldown_time 5 \<le> cooldown_time 7"
proof -
  let ?p = "ParserInterface_init ''a'' ''https://a/?url={url}'' ''html''"
  let ?ts = "[(1, 1), (2, 2), (3, 3), (4, 4)] :: (real \<times> real) list"
  have p0: "consecutive_failures ?p = 0" "cooldown_until ?p = None"
    by (simp_all add: ParserInterface_init_def)
  from record_failure_cooldown_schedule
    [where p = ?p and ts = ?ts and ?now1.0 = 5 and ?now2.0 = 5 and t = 5 and a = 5 and b = 7]
  have a: "\<not> is_in_cooldown (record_failures ?p ?ts) 5"
    and b: "is_in_cooldown (record_failures ?p (?ts @ [(5, 5)])) 5"
    and c: "cooldown_time 5 \<le> cooldown_time 7"
    using p0 by (simp_all add: MAX_CONSECUTIVE_FAILURES_def COOLDOWN_BASE_def)
  from record_failure_cooldown_schedule
    [where p = "?p\<lparr>consecutive_failures := 6\<rparr>" and ?now1.0 = 5 and ?now2.0 = 5]
  have d: "cooldown_until (record_failure (?p\<lparr>consecutive_failures := 6\<rparr>) 5 5) = Some 245"
    by (simp add: MAX_CONSECUTIVE_FAILURES_def COOLDOWN_BASE_def COOLDOWN_MAX_def)
  from a b c d show ?thesis by simp
qed

lemma rank_key_le:
  "rank_key a \<le> rank_key b \<longleftrightarrow>
     get_success_rate a > get_success_rate b
     \<or> (get_success_rate a = get_success_rate b
         \<and> get_average_response_time a \<le> get_average_response_time b)"
  by (auto simp: rank_key_def)

lemma rank_key_eq:
  "rank_key p = (- r, l) \<longleftrightarrow> get_success_rate p = r \<and> get_average_response_time p = l"
  by (auto simp: rank_key_def)

text \<open>
  C5. \<open>get_sorted_parsers\<close> is a function of the parser list and the clock reading (no
  random draw enters it). Its result holds exactly the enabled parsers that are not in
  cooldown, each as often as the list has it; going down the result the success rate
  never increases and, among equal success rates, the average response time never
  decreases; and the parsers that agree in both appear in their order in the list.
\<close>

theorem get_sorted_parsers_ranked:
  "mset (get_sorted_parsers parsers now)
     = mset (filter (\<lambda>p. enabled p \<and> \<not> is_in_cooldown p now) parsers)
   \<and> set (get_sorted_parsers parsers now)
       = {p \<in> set parsers. enabled p \<and> \<not> is_in_cooldown p now}
   \<and> sorted_wrt (\<lambda>a b. get_success_rate a > get_success_rate b
                    \<or> (get_success_rate a = get_success_rate b
                        \<and> get_average_response_time a \<le> get_average_response_time b))
        (get_sorted_parsers parsers now)
   \<and> filter (\<lambda>p. get_success_rate p = r \<and> get_average_response_time p = l)
        (get_sorted_parsers parsers now)
       = filter (\<lambda>p. get_success_rate p = r \<and> get_average_response_time p = l)
           (filter (\<lambda>p. enabled p \<and> \<not> is_in_cooldown p now) parsers)"
proof (intro conjI)
  let ?avail = "filter (\<lambda>p. enabled p \<and> \<not> is_in_cooldown p now) parsers"
  show "mset (get_sorted_parsers parsers now) = mset ?avail"
    by (simp add: get_sorted_parsers_def)
  show "set (get_sorted_parsers parsers now)
          = {p \<in> set parsers. enabled p \<and> \<not> is_in_cooldown p now}"
    by (simp add: get_sorted_parsers_def)
  have "sorted (map rank_key (sort_key rank_key ?avail))"
    by (rule sorted_sort_key)
  then have "sorted_wrt (\<lambda>a b. rank_key a \<le> rank_key b) (sort_key rank_key ?avail)"
    by (simp add: sorted_map)
  then show "sorted_wrt (\<lambda>a b. get_success_rate a > get_success_rate b
                    \<or> (get_success_rate a = get_success_rate b
                        \<and> get_average_response_time a \<le> get_average_response_time b))
        (get_sorted_parsers parsers now)"
    by (simp add: get_sorted_parsers_def rank_key_le)
  have "filter (\<lambda>p. rank_key p = (- r, l)) (sort_key rank_key ?avail)
          = filter (\<lambda>p. rank_key p = (- r, l)) ?avail"
    by (rule sort_key_stable)
  then show "filter (\<lambda>p. get_success_rate p = r \<and> get_average_response_time p = l)
        (get_sorted_parsers parsers now)
       = filter (\<lambda>p. get_success_rate p = r \<and> get_average_response_time p = l) ?avail"
    by (simp add: get_sorted_parsers_def rank_key_eq)
qed

section \<open>Results: URL validation\<close>

lemma str_in_sublist: "str_in sub s \<longleftrightarrow> sublist sub s"
  by (induction s) (simp_all add: sublist_Cons_right)

lemma str_lower_append: "str_lower (a @ b) = str_lower a @ str_lower b"
  by (simp add: str_lower_def)

lemma validate_play_url_iff:
  "validate_play_url u \<longleftrightarrow>
     u \<noteq> [] \<and> (prefix ''http://'' u \<or> prefix ''https://'' u)
     \<and> 20 \<le> length u \<and> length u \<le> 2000
     \<and> set u \<inter> set invalid_chars = {}
     \<and> (\<exists>ind \<in> set (valid_extensions @ valid_protocols). sublist ind (str_lower u))"
  unfolding validate_play_url_def Let_def startswith_def list_ex_iff str_in_sublist
  by auto

lemma validate_play_url_short: "length u < 20 \<Longrightarrow> \<not> validate_play_url u"
  by (simp add: validate_play_url_iff)

lemma validate_play_url_video_m3u8:
  assumes "length mid = 21" and "set mid \<inter> set invalid_chars = {}"
  shows "validate_play_url (''https://'' @ mid @ ''/video.m3u8'')"
proof -
  let ?u = "''https://'' @ mid @ ''/video.m3u8''"
  have "str_lower ?u = (str_lower ''https://'' @ str_lower mid @ ''/video'') @ ''.m3u8'' @ []"
    by (simp add: str_lower_def lower_char_def)
  then have "sublist ''.m3u8'' (str_lower ?u)"
    unfolding sublist_def by blast
  moreover have "set ?u \<inter> set invalid_chars = {}"
    using assms(2) by (auto simp: invalid_chars_def)
  moreover have "length ?u = 40"
    using assms(1) by simp
  ultimately show ?thesis
    unfolding validate_play_url_iff by (simp add: valid_extensions_def)
qed

text \<open>
  C6. \<open>validate_play_url\<close> accepts a string exactly when it is not empty, starts with
  \<open>http://\<close> or \<open>https://\<close>, has between 20 and 2000 characters, holds none of
  \<open>< > " '\<close>, newline, carriage return, tab, and its lower-case form contains one of the
  indicators \<open>.m3u8 .mp4 .flv .ts /m3u8/ /mp4/ /flv/ /hls/ /dash/\<close>. It rejects the
  empty string, \<open>not-a-url\<close>, \<open>ftp://x.mp4\<close>, every string of 12 characters and every
  string with a \<open><\<close> in it, and accepts every 40-character string
  \<open>https://\<dots>/video.m3u8\<close> whose middle part has none of the forbidden characters.
\<close>

theorem validate_play_url_contract:
  "(validate_play_url u \<longleftrightarrow>
      u \<noteq> [] \<and> (prefix ''http://'' u \<or> prefix ''https://'' u)
      \<and> 20 \<le> length u \<and> length u \<le> 2000
      \<and> set u \<inter> {CHR ''<'', CHR ''>'', CHR 0x22, CHR 0x27, CHR 0x0A, CHR 0x0D, CHR 0x09} = {}
      \<and> (\<exists>ind \<in> {''.m3u8'', ''.mp4'', ''.flv'', ''.ts'',
                    ''/m3u8/'', ''/mp4/'', ''/flv/'', ''/hls/'', ''/dash/''}.
            sublist ind (str_lower u)))
   \<and> \<not> validate_play_url ''''
   \<and> \<not> validate_play_url ''not-a-url''
   \<and> \<not> validate_play_url ''ftp://x.mp4''
   \<and> (length v = 12 \<longrightarrow> \<not> validate_play_url v)
   \<and> (CHR ''<'' \<in> set w \<longrightarrow> \<not> validate_play_url w)
   \<and> (length mid = 21
        \<and> set mid \<inter> {CHR ''<'', CHR ''>'', CHR 0x22, CHR 0x27, CHR 0x0A, CHR 0x0D, CHR 0x09} = {}
        \<longrightarrow> length (''https://'' @ mid @ ''/video.m3u8'') = 40
            \<and> validate_play_url (''https://'' @ mid @ ''/video.m3u8''))"
proof (intro conjI impI)
  show "validate_play_url u \<longleftrightarrow>
      u \<noteq> [] \<and> (prefix ''http://'' u \<or> prefix ''https://'' u)
      \<and> 20 \<le> length u \<and> length u \<le> 2000
      \<and> set u \<inter> {CHR ''<'', CHR ''>'', CHR 0x22, CHR 0x27, CHR 0x0A, CHR 0x0D, CHR 0x09} = {}
      \<and> (\<exists>ind \<in> {''.m3u8'', ''.mp4'', ''.flv'', ''.ts'',
                    ''/m3u8/'', ''/mp4/'', ''/flv/'', ''/hls/'', ''/dash/''}.
            sublist ind (str_lower u))"
    unfolding validate_play_url_iff
    by (simp add: invalid_chars_def valid_extensions_def valid_protocols_def)
  show "\<not> validate_play_url ''''"
    by (simp add: validate_play_url_def)
  show "\<not> validate_play_url ''not-a-url''"
    by (simp add: validate_play_url_def startswith_def)
  show "\<not> validate_play_url ''ftp://x.mp4''"
    by (simp add: validate_play_url_def startswith_def)
  show "\<not> validate_play_url v" if "length v = 12"
    using that by (simp add: validate_play_url_short)
  show "\<not> validate_play_url w" if "CHR ''<'' \<in> set w"
    using that by (auto simp: validate_play_url_iff invalid_chars_def)
  show "length (''https://'' @ mid @ ''/video.m3u8'') = 40"
    if "length mid = 21
        \<and> set mid \<inter> {CHR ''<'', CHR ''>'', CHR 0x22, CHR 0x27, CHR 0x0A, CHR 0x0D, CHR 0x09} = {}"
    using that by simp
  show "validate_play_url (''https://'' @ mid @ ''/video.m3u8'')"
    if "length mid = 21
        \<and> set mid \<inter> {CHR ''<'', CHR ''>'', CHR 0x22, CHR 0x27, CHR 0x0A, CHR 0x0D, CHR 0x09} = {}"
    using that by (intro validate_play_url_video_m3u8) (simp_all add: invalid_chars_def)
qed

theorem validate_play_url_contract_witness:
  "validate_play_url ''https://cdn.example.com/vod/a/video.m3u8''
   \<and> length ''https://cdn.example.com/vod/a/video.m3u8'' = 40
   \<and> \<not> validate_play_url ''http://a.io/'' 
   \<and> \<not> validate_play_url ''https://cdn.example.com/<b>/video.m3u8''
   \<and> \<not> validate_play_url ''https://cdn.example.com/vod/a/video.html''"
proof -
  note c = validate_play_url_contract
    [where u = "''https://cdn.example.com/vod/a/video.html''"
       and v = "''http://a.io/''"
       and w = "''https://cdn.example.com/<b>/video.m3u8''"
       and mid = "''cdn.example.com/vod/a''"]
  have "length ''http://a.io/'' = 12" by simp
  with c have a: "\<not> validate_play_url ''http://a.io/''" by blast
  have "CHR ''<'' \<in> set ''https://cdn.example.com/<b>/video.m3u8''" by simp
  with c have b: "\<not> validate_play_url ''https://cdn.example.com/<b>/video.m3u8''" by blast
  have "length ''cdn.example.com/vod/a'' = 21
        \<and> set ''cdn.example.com/vod/a''
            \<inter> {CHR ''<'', CHR ''>'', CHR 0x22, CHR 0x27, CHR 0x0A, CHR 0x0D, CHR 0x09} = {}"
    by simp
  with c have d: "validate_play_url (''https://'' @ ''cdn.example.com/vod/a'' @ ''/video.m3u8'')"
    by blast
  have "\<not> (\<exists>ind \<in> {''.m3u8'', ''.mp4'', ''.flv'', ''.ts'',
                    ''/m3u8/'', ''/mp4/'', ''/flv/'', ''/hls/'', ''/dash/''}.
            sublist ind (str_lower ''https://cdn.example.com/vod/a/video.html''))"
    by (simp add: str_lower_def lower_char_def str_in_sublist [symmetric])
  with c have e: "\<not> validate_play_url ''https://cdn.example.com/vod/a/video.html''"
    by blast
  from a b d e show ?thesis by simp
qed

section \<open>Results: proxy selection\<close>

lemma mset_sort_reverse: "mset (sort_reverse f xs) = mset xs"
  by (simp add: sort_reverse_def)

lemma length_sort_reverse: "length (sort_reverse f xs) = length xs"
  by (simp add: sort_reverse_def)

lemma sorted_sort_reverse: "sorted_wrt (\<lambda>a b. f b \<le> f a) (sort_reverse f xs)"
proof -
  have "sorted (map f (sort_key f (rev xs)))"
    by (rule sorted_sort_key)
  then have "sorted_wrt (\<lambda>a b. f a \<le> f b) (sort_key f (rev xs))"
    by (simp add: sorted_map)
  then show ?thesis
    by (simp add: sort_reverse_def sorted_wrt_rev)
qed

lemma sort_reverse_stable:
  "filter (\<lambda>y. f y = k) (sort_reverse f xs) = filter (\<lambda>y. f y = k) xs"
proof -
  have "filter (\<lambda>y. f y = k) (sort_reverse f xs)
          = rev (filter (\<lambda>y. f y = k) (sort_key f (rev xs)))"
    by (simp add: sort_reverse_def rev_filter)
  also have "\<dots> = rev (filter (\<lambda>y. f y = k) (rev xs))"
    by (simp only: sort_key_stable)
  also have "\<dots> = filter (\<lambda>y. f y = k) xs"
    by (simp add: rev_filter)
  finally show ?thesis .
qed

lemma select_key_ge:
  "select_key b \<le> select_key a \<longleftrightarrow>
     success_rate a > success_rate b
     \<or> (success_rate a = success_rate b \<and> response_time a \<le> response_time b)"
  by (auto simp: select_key_def)

lemma length_top_proxies:
  "length (top_proxies m) = (if active_proxies m = [] then 0
                             else max 1 (length (active_proxies m) div 2))"
  by (cases "active_proxies m")
     (auto simp: top_proxies_def ranked_proxies_def length_sort_reverse)

lemma three_proxies_ranked:
  "ranked_proxies three_proxies =
     [(ProxyInfo_init ''http://p2:8080'')\<lparr>success_count := 3, response_time := 1\<rparr>,
      (ProxyInfo_init ''http://p1:8080'')
         \<lparr>success_count := 1, failure_count := 1, response_time := 1 / 2\<rparr>,
      ProxyInfo_init ''http://p3:8080'']"
  by (simp add: ranked_proxies_def sort_reverse_def active_proxies_def three_proxies_def
      ProxyInfo_init_def select_key_def success_rate_def)

text \<open>
  C2 as stated fails: of three selectable proxies only the best-ranked one is kept
  (\<open>3 // 2 = 1\<close>), not the top two.
\<close>

theorem get_active_proxy_three_counterexample:
  "length (active_proxies three_proxies) = 3
   \<and> length (top_proxies three_proxies) = 1
   \<and> top_proxies three_proxies \<noteq> take ((3 + 1) div 2) (ranked_proxies three_proxies)
   \<and> get_active_proxy three_proxies 0 = Some ''http://p2:8080''"
  by (simp add: get_active_proxy_def top_proxies_def three_proxies_ranked)
     (simp add: active_proxies_def three_proxies_def ProxyInfo_init_def)

text \<open>
  C2, amended. When some proxy is ACTIVE, the ACTIVE proxies are ranked by success rate,
  highest first, then by response time, lowest first, ties in dictionary order; the
  kept candidates are the first \<open>max 1 (n div 2)\<close> of the \<open>n\<close> ranked proxies, that is
  the top half rounded down with a minimum of one; the draw \<open>r\<close> below the number of
  kept candidates returns the URL of the candidate at position \<open>r\<close>, and every kept
  candidate is returned by some draw.
\<close>

theorem get_active_proxy_top_half:
  assumes "active_proxies m \<noteq> []"
  shows "mset (ranked_proxies m) = mset (active_proxies m)
    \<and> sorted_wrt (\<lambda>a b. success_rate a > success_rate b
                    \<or> (success_rate a = success_rate b \<and> response_time a \<le> response_time b))
        (ranked_proxies m)
    \<and> filter (\<lambda>p. select_key p = k) (ranked_proxies m)
        = filter (\<lambda>p. select_key p = k) (active_proxies m)
    \<and> top_proxies m = take (max 1 (length (active_proxies m) div 2)) (ranked_proxies m)
    \<and> length (top_proxies m) = max 1 (length (active_proxies m) div 2)
    \<and> (\<forall>r < length (top_proxies m).
          get_active_proxy m r = Some (url (ranked_proxies m ! r)))
    \<and> (\<forall>p \<in> set (top_proxies m).
          \<exists>r < length (top_proxies m). get_active_proxy m r = Some (url p))"
proof (intro conjI)
  show "mset (ranked_proxies m) = mset (active_proxies m)"
    by (simp add: ranked_proxies_def mset_sort_reverse)
  have "sorted_wrt (\<lambda>a b. select_key b \<le> select_key a) (ranked_proxies m)"
    unfolding ranked_proxies_def by (rule sorted_sort_reverse)
  then show "sorted_wrt (\<lambda>a b. success_rate a > success_rate b
                    \<or> (success_rate a = success_rate b \<and> response_time a \<le> response_time b))
        (ranked_proxies m)"
    by (simp add: select_key_ge)
  show "filter (\<lambda>p. select_key p = k) (ranked_proxies m)
        = filter (\<lambda>p. select_key p = k) (active_proxies m)"
    unfolding ranked_proxies_def by (rule sort_reverse_stable)
  show top: "top_proxies m = take (max 1 (length (active_proxies m) div 2)) (ranked_proxies m)"
    by (simp add: top_proxies_def ranked_proxies_def length_sort_reverse)
  show len: "length (top_proxies m) = max 1 (length (active_proxies m) div 2)"
    using assms by (simp add: length_top_proxies)
  show "\<forall>r < length (top_proxies m).
          get_active_proxy m r = Some (url (ranked_proxies m ! r))"
    using assms by (simp add: get_active_proxy_def top)
  show "\<forall>p \<in> set (top_proxies m).
          \<exists>r < length (top_proxies m). get_active_proxy m r = Some (url p)"
  proof
    fix p assume "p \<in> set (top_proxies m)"
    then obtain r where "r < length (top_proxies m)" and "top_proxies m ! r = p"
      by (auto simp: in_set_conv_nth)
    with assms show "\<exists>r < length (top_proxies m). get_active_proxy m r = Some (url p)"
      by (auto simp: get_active_proxy_def)
  qed
qed

theorem get_active_proxy_top_half_witness:
  "top_proxies three_proxies = take 1 (ranked_proxies three_proxies)
   \<and> get_active_proxy three_proxies 0 = Some ''http://p2:8080''
   \<and> length (top_proxies (add_proxy three_proxies ''http://p4:8080'')) = 2"
proof -
  have a3: "active_proxies three_proxies \<noteq> []"
    and n3: "length (active_proxies three_proxies) = 3"
    by (simp_all add: active_proxies_def three_proxies_def ProxyInfo_init_def)
  have a4: "active_proxies (add_proxy three_proxies ''http://p4:8080'') \<noteq> []"
    and n4: "length (active_proxies (add_proxy three_proxies ''http://p4:8080'')) = 4"
    by (simp_all add: active_proxies_def add_proxy_def three_proxies_def ProxyInfo_init_def)
  note t3 = get_active_proxy_top_half [OF a3]
  note t4 = get_active_proxy_top_half [OF a4]
  from t3 have "top_proxies three_proxies
      = take (max 1 (length (active_proxies three_proxies) div 2)) (ranked_proxies three_proxies)"
    and "length (top_proxies three_proxies) = max 1 (length (active_proxies three_proxies) div 2)"
    by blast+
  then have top3: "top_proxies three_proxies = take 1 (ranked_proxies three_proxies)"
    and len3: "length (top_proxies three_proxies) = 1"
    by (simp_all add: n3)
  from t3 len3 have "get_active_proxy three_proxies 0
                       = Some (url (ranked_proxies three_proxies ! 0))"
    by simp
  then have pick: "get_active_proxy three_proxies 0 = Some ''http://p2:8080''"
    by (simp add: three_proxies_ranked ProxyInfo_init_def)
  from t4 have "length (top_proxies (add_proxy three_proxies ''http://p4:8080''))
      = max 1 (length (active_proxies (add_proxy three_proxies ''http://p4:8080'')) div 2)"
    by blast
  then have "length (top_proxies (add_proxy three_proxies ''http://p4:8080'')) = 2"
    by (simp add: n4)
  with top3 pick show ?thesis by simp
qed

section \<open>Results: the proxy dictionary\<close>

lemma url_info_ops [simp]:
  "url (info_banned i) = url i"
  "url (info_failed i) = url i"
  "url (info_reset i) = url i"
  "url (check_proxy i now res) = url i"
  by (simp_all add: info_banned_def info_failed_def info_reset_def Let_def
      check_proxy_def check_proxy_begin_def check_proxy_end_def split: probe_result.split)

lemma filed_update:
  assumes "list_all (\<lambda>(k, i). url i = k) al" and "url v = k"
  shows "list_all (\<lambda>(k, i). url i = k) (AList.update k v al)"
  using assms by (induction al) auto

lemma filed_map_entry:
  assumes "list_all (\<lambda>(k, i). url i = k) al" and "\<And>i. url (f i) = url i"
  shows "list_all (\<lambda>(k, i). url i = k) (AList.map_entry k f al)"
  using assms by (induction al) auto

lemma filed_delete:
  assumes "list_all (\<lambda>(k, i). url i = k) al"
  shows "list_all (\<lambda>(k, i). url i = k) (AList.delete k al)"
  using assms by (induction al) auto

lemma wf_foldl_update:
  assumes "distinct (map fst d)" and "list_all (\<lambda>(k, i). url i = k) d"
  shows "distinct (map fst (foldl (\<lambda>d p. AList.update p (ProxyInfo_init p) d) d ps))
       \<and> list_all (\<lambda>(k, i). url i = k)
           (foldl (\<lambda>d p. AList.update p (ProxyInfo_init p) d) d ps)"
  using assms
proof (induction ps arbitrary: d)
  case Nil
  then show ?case by simp
next
  case (Cons p ps)
  have "distinct (map fst (AList.update p (ProxyInfo_init p) d))"
    using Cons.prems(1) by (rule distinct_update)
  moreover have "list_all (\<lambda>(k, i). url i = k) (AList.update p (ProxyInfo_init p) d)"
    using Cons.prems(2) by (rule filed_update) (simp add: ProxyInfo_init_def)
  ultimately show ?case
    using Cons.IH by simp
qed

text \<open>
  The dictionary is well formed when the manager is built and stays so under every
  method.
\<close>

lemma wf_manager_init: "wf_manager (ProxyManager_init ps interval)"
  using wf_foldl_update [of "[]" ps] by (simp add: wf_manager_def ProxyManager_init_def)

lemma wf_manager_mark_proxy_banned:
  "wf_manager m \<Longrightarrow> wf_manager (mark_proxy_banned m v ip)"
  by (auto simp: wf_manager_def mark_proxy_banned_def Let_def distinct_map_entry
      filed_map_entry split: option.split)

lemma wf_manager_mark_proxy_failed:
  "wf_manager m \<Longrightarrow> wf_manager (mark_proxy_failed m v)"
  by (simp add: wf_manager_def mark_proxy_failed_def distinct_map_entry filed_map_entry)

lemma wf_manager_reset_proxy:
  "wf_manager m \<Longrightarrow> wf_manager (reset_proxy m v)"
  by (simp add: wf_manager_def reset_proxy_def distinct_map_entry filed_map_entry)

lemma wf_manager_add_proxy:
  "wf_manager m \<Longrightarrow> wf_manager (add_proxy m v)"
  by (simp add: wf_manager_def add_proxy_def distinct_update filed_update ProxyInfo_init_def)

lemma wf_manager_remove_proxy:
  "wf_manager m \<Longrightarrow> wf_manager (remove_proxy m v)"
  by (simp add: wf_manager_def remove_proxy_def distinct_delete filed_delete)

lemma wf_manager_check_all_proxies:
  assumes "wf_manager m"
  shows "wf_manager (check_all_proxies m now results)"
proof -
  let ?f = "\<lambda>(k, info). (k, if check_due m now info
                    then check_proxy info now (results (url info)) else info)"
  have keys: "map fst (map ?f al) = map fst al" for al
    by (induction al) auto
  have filed: "list_all (\<lambda>(k, i). url i = k) al
                 \<Longrightarrow> list_all (\<lambda>(k, i). url i = k) (map ?f al)" for al
    by (induction al) auto
  from assms have "distinct (map fst (map ?f (proxies m)))"
    by (simp only: keys) (simp add: wf_manager_def)
  moreover from assms have "list_all (\<lambda>(k, i). url i = k) (map ?f (proxies m))"
    by (intro filed) (simp add: wf_manager_def)
  ultimately show ?thesis
    by (simp add: wf_manager_def check_all_proxies_def del: map_map)
qed

lemma map_of_mark_proxy_banned:
  "map_of (proxies (mark_proxy_banned m v ip)) u
     = (if u = v then map_option info_banned (map_of (proxies m) u) else map_of (proxies m) u)"
  by (auto simp: mark_proxy_banned_def Let_def map_of_map_entry split: option.splits)

lemma map_of_mark_proxy_failed:
  "map_of (proxies (mark_proxy_failed m v)) u
     = (if u = v then map_option info_failed (map_of (proxies m) u) else map_of (proxies m) u)"
  by (auto simp: mark_proxy_failed_def map_of_map_entry split: option.splits)

lemma map_of_reset_proxy:
  "map_of (proxies (reset_proxy m v)) u
     = (if u = v then map_option info_reset (map_of (proxies m) u) else map_of (proxies m) u)"
  by (auto simp: reset_proxy_def map_of_map_entry split: option.splits)

lemma map_of_add_proxy:
  "map_of (proxies m) u = Some info \<Longrightarrow> map_of (proxies (add_proxy m v)) u = Some info"
  by (auto simp: add_proxy_def update_conv' dest: map_of_SomeD intro: rev_image_eqI)

lemma map_of_remove_proxy:
  "v \<noteq> u \<Longrightarrow> map_of (proxies (remove_proxy m v)) u = map_of (proxies m) u"
  by (simp add: remove_proxy_def delete_conv')

lemma map_of_check_all_proxies:
  "map_of (proxies (check_all_proxies m now results)) u
     = map_option (\<lambda>info. if check_due m now info
                          then check_proxy info now (results (url info)) else info)
         (map_of (proxies m) u)"
  by (simp add: check_all_proxies_def map_of_map)

lemma status_check_proxy:
  "status (check_proxy info now res)
     = (case res of
          ProbeOk elapsed \<Rightarrow> ACTIVE
        | ProbeFailed elapsed \<Rightarrow> if failure_count info + 1 \<ge> 3 then FAILED else ACTIVE
        | ProbeCancelled \<Rightarrow> CHECKING)"
  by (simp add: check_proxy_def check_proxy_begin_def check_proxy_end_def Let_def
      split: probe_result.split)

lemma set_top_proxies: "set (top_proxies m) \<subseteq> set (active_proxies m)"
proof -
  have "set (top_proxies m) \<subseteq> set (ranked_proxies m)"
    unfolding top_proxies_def by (rule set_take_subset)
  also have "\<dots> = set (active_proxies m)"
    by (simp add: ranked_proxies_def sort_reverse_def)
  finally show ?thesis .
qed

lemma selected_is_active:
  assumes "wf_manager m" and "r < length (top_proxies m)"
    and "get_active_proxy m r = Some u"
  shows "\<exists>info. map_of (proxies m) u = Some info \<and> status info = ACTIVE"
proof -
  let ?p = "top_proxies m ! r"
  from assms(2) have "?p \<in> set (top_proxies m)" by simp
  with set_top_proxies have act: "?p \<in> set (active_proxies m)" by blast
  then have st: "status ?p = ACTIVE" and "?p \<in> snd ` set (proxies m)"
    by (auto simp: active_proxies_def)
  then obtain k where k: "(k, ?p) \<in> set (proxies m)" by auto
  with assms(1) have "url ?p = k"
    by (auto simp: wf_manager_def list_all_iff)
  moreover from act assms(3) have "u = url ?p"
    by (auto simp: get_active_proxy_def split: if_splits)
  ultimately have "(u, ?p) \<in> set (proxies m)" using k by simp
  with assms(1) have "map_of (proxies m) u = Some ?p"
    by (simp add: wf_manager_def)
  with st show ?thesis by blast
qed

text \<open>
  Below the third failure the two places that book a failure differ: the failure branch
  of \<open>_check_proxy\<close> writes ACTIVE over whatever the status was, while
  \<open>mark_proxy_failed\<close> leaves the status alone.
\<close>

lemma failure_below_third_status:
  assumes "failure_count info + 1 < 3"
  shows "status (check_proxy_end info (ProbeFailed elapsed)) = ACTIVE"
    and "status (info_failed info) = status info"
  using assms by (simp_all add: check_proxy_end_def info_failed_def Let_def)

text \<open>
  C1 as stated fails: the health check probes a banned proxy like any other. A ban on a
  fresh proxy is gone after the next round of checks when the probe gets status 200, and
  the proxy is selected again.
\<close>

theorem banned_proxy_probe_counterexample:
  "status_of banned_manager ''http://p1:8080'' = Some BANNED
   \<and> status_of (check_all_proxies banned_manager 1000 (\<lambda>u. ProbeOk (1 / 5))) ''http://p1:8080''
       = Some ACTIVE
   \<and> get_active_proxy (check_all_proxies banned_manager 1000 (\<lambda>u. ProbeOk (1 / 5))) 0
       = Some ''http://p1:8080''"
  by (simp add: banned_manager_def status_of_def mark_proxy_banned_def ProxyManager_init_def
      ProxyInfo_init_def info_banned_def check_all_proxies_def check_due_def check_proxy_def
      check_proxy_begin_def check_proxy_end_def get_active_proxy_def top_proxies_def
      ranked_proxies_def sort_reverse_def active_proxies_def)

text \<open>
  C1, amended. For a proxy the manager holds as BANNED: selection never returns it;
  \<open>mark_proxy_banned\<close> and \<open>add_proxy\<close> (of any URL), and \<open>reset_proxy\<close> and
  \<open>remove_proxy\<close> of another URL, leave it BANNED; \<open>mark_proxy_failed\<close> leaves it BANNED
  or, on its third failure, makes it FAILED; \<open>reset_proxy\<close> of its URL makes it ACTIVE.
  The health check is not gated on the status: a round of checks leaves the proxy BANNED
  only when its last check is not older than the interval; otherwise the probe marks it
  CHECKING, and then a probe that gets status 200 makes it ACTIVE, a failed probe that
  is its third failure makes it FAILED, and a cancelled probe leaves it CHECKING. The
  second half of a probe that was already running when the proxy was banned does the
  same: ACTIVE after status 200, FAILED on the third failure, no change when cancelled.
  What a failed probe does to the status before the third failure is not part of this
  statement.
\<close>

theorem banned_proxy_transitions:
  assumes "wf_manager m" and "map_of (proxies m) u = Some info" and "status info = BANNED"
  shows "(\<forall>r < length (top_proxies m). get_active_proxy m r \<noteq> Some u)
    \<and> status_of (mark_proxy_banned m v ip) u = Some BANNED
    \<and> status_of (add_proxy m v) u = Some BANNED
    \<and> status_of (mark_proxy_failed m v) u
        = Some (if v = u \<and> failure_count info + 1 \<ge> 3 then FAILED else BANNED)
    \<and> (v \<noteq> u \<longrightarrow> status_of (reset_proxy m v) u = Some BANNED
                  \<and> status_of (remove_proxy m v) u = Some BANNED)
    \<and> status_of (reset_proxy m u) u = Some ACTIVE
    \<and> (\<not> check_due m now info \<longrightarrow>
          status_of (check_all_proxies m now results) u = Some BANNED)
    \<and> (check_due m now info \<and> results u = ProbeOk elapsed \<longrightarrow>
          status_of (check_all_proxies m now results) u = Some ACTIVE)
    \<and> (check_due m now info \<and> results u = ProbeFailed elapsed
          \<and> failure_count info + 1 \<ge> 3 \<longrightarrow>
          status_of (check_all_proxies m now results) u = Some FAILED)
    \<and> (check_due m now info \<and> results u = ProbeCancelled \<longrightarrow>
          status_of (check_all_proxies m now results) u = Some CHECKING)
    \<and> status (check_proxy_begin info now) = CHECKING
    \<and> status (check_proxy_end info (ProbeOk elapsed)) = ACTIVE
    \<and> (failure_count info + 1 \<ge> 3 \<longrightarrow>
          status (check_proxy_end info (ProbeFailed elapsed)) = FAILED)
    \<and> check_proxy_end info ProbeCancelled = info"
proof (intro conjI impI allI)
  from assms(1,2) have url: "url info = u"
    by (auto simp: wf_manager_def list_all_iff dest: map_of_SomeD)
  show "get_active_proxy m r \<noteq> Some u" if "r < length (top_proxies m)" for r
  proof
    assume "get_active_proxy m r = Some u"
    with assms(1) that obtain i where "map_of (proxies m) u = Some i" and "status i = ACTIVE"
      using selected_is_active by blast
    with assms(2,3) show False by simp
  qed
  show "status_of (mark_proxy_banned m v ip) u = Some BANNED"
    using assms(2,3) by (auto simp: status_of_def map_of_mark_proxy_banned info_banned_def)
  show "status_of (add_proxy m v) u = Some BANNED"
    using assms(2,3) by (simp add: status_of_def map_of_add_proxy)
  show "status_of (mark_proxy_failed m v) u
        = Some (if v = u \<and> failure_count info + 1 \<ge> 3 then FAILED else BANNED)"
    using assms(2,3)
    by (auto simp: status_of_def map_of_mark_proxy_failed info_failed_def Let_def)
  show "status_of (reset_proxy m v) u = Some BANNED" if "v \<noteq> u"
    using assms(2,3) that by (simp add: status_of_def map_of_reset_proxy)
  show "status_of (remove_proxy m v) u = Some BANNED" if "v \<noteq> u"
    using assms(2,3) that by (simp add: status_of_def map_of_remove_proxy)
  show "status_of (reset_proxy m u) u = Some ACTIVE"
    using assms(2) by (simp add: status_of_def map_of_reset_proxy info_reset_def)
  show "status_of (check_all_proxies m now results) u = Some BANNED"
    if "\<not> check_due m now info"
    using assms(2,3) that by (simp add: status_of_def map_of_check_all_proxies)
  show "status_of (check_all_proxies m now results) u = Some ACTIVE"
    if "check_due m now info \<and> results u = ProbeOk elapsed"
    using assms(2) that url
    by (simp add: status_of_def map_of_check_all_proxies status_check_proxy)
  show "status_of (check_all_proxies m now results) u = Some FAILED"
    if "check_due m now info \<and> results u = ProbeFailed elapsed
          \<and> failure_count info + 1 \<ge> 3"
    using assms(2) that url
    by (simp add: status_of_def map_of_check_all_proxies status_check_proxy)
  show "status_of (check_all_proxies m now results) u = Some CHECKING"
    if "check_due m now info \<and> results u = ProbeCancelled"
    using assms(2) that url
    by (simp add: status_of_def map_of_check_all_proxies status_check_proxy)
  show "status (check_proxy_begin info now) = CHECKING"
    by (simp add: check_proxy_begin_def)
  show "status (check_proxy_end info (ProbeOk elapsed)) = ACTIVE"
    by (simp add: check_proxy_end_def)
  show "status (check_proxy_end info (ProbeFailed elapsed)) = FAILED"
    if "failure_count info + 1 \<ge> 3"
    using that by (simp add: check_proxy_end_def Let_def)
  show "check_proxy_end info ProbeCancelled = info"
    by (simp add: check_proxy_end_def)
qed

lemma wf_manager_three_proxies: "wf_manager three_proxies"
  by (simp add: wf_manager_def three_proxies_def ProxyInfo_init_def)

theorem banned_proxy_transitions_witness:
  "length (top_proxies banned_among_three) = 1
   \<and> get_active_proxy banned_among_three 0 \<noteq> Some ''http://p2:8080''
   \<and> status_of (mark_proxy_failed banned_among_three ''http://p2:8080'') ''http://p2:8080''
       = Some BANNED
   \<and> status_of (reset_proxy banned_among_three ''http://p1:8080'') ''http://p2:8080''
       = Some BANNED
   \<and> status_of (reset_proxy banned_among_three ''http://p2:8080'') ''http://p2:8080''
       = Some ACTIVE
   \<and> status_of (check_all_proxies banned_among_three 200 (\<lambda>u. ProbeOk (1 / 5)))
         ''http://p2:8080'' = Some BANNED
   \<and> status_of (check_all_proxies banned_among_three 1000 (\<lambda>u. ProbeOk (1 / 5)))
         ''http://p2:8080'' = Some ACTIVE
   \<and> status_of (check_all_proxies banned_among_three 1000 (\<lambda>u. ProbeCancelled))
         ''http://p2:8080'' = Some CHECKING
   \<and> status_of (check_all_proxies
         (mark_proxy_banned
            (mark_proxy_failed (mark_proxy_failed three_proxies ''http://p2:8080'')
               ''http://p2:8080'')
            ''http://p2:8080'' None)
         1000 (\<lambda>u. ProbeFailed 10)) ''http://p2:8080'' = Some FAILED"
proof -
  let ?u = "''http://p2:8080''"
  let ?info = "(ProxyInfo_init ?u)\<lparr>success_count := 3, response_time := 1, status := BANNED\<rparr>"
  let ?m2 = "mark_proxy_banned (mark_proxy_failed (mark_proxy_failed three_proxies ?u) ?u) ?u None"
  let ?info2 = "(ProxyInfo_init ?u)
      \<lparr>success_count := 3, response_time := 1, failure_count := 2, status := BANNED\<rparr>"
  have wf: "wf_manager banned_among_three"
    unfolding banned_among_three_def
    by (intro wf_manager_mark_proxy_banned wf_manager_three_proxies)
  have look: "map_of (proxies banned_among_three) ?u = Some ?info"
    by (simp add: banned_among_three_def mark_proxy_banned_def three_proxies_def
        info_banned_def ProxyInfo_init_def)
  have st: "status ?info = BANNED"
    by simp
  have due: "\<not> check_due banned_among_three 200 ?info" "check_due banned_among_three 1000 ?info"
    by (simp_all add: check_due_def banned_among_three_def mark_proxy_banned_def
        three_proxies_def ProxyInfo_init_def)
  have fc: "failure_count ?info = 0"
    by (simp add: ProxyInfo_init_def)
  have len: "length (top_proxies banned_among_three) = 1"
    by (simp add: length_top_proxies active_proxies_def banned_among_three_def
        mark_proxy_banned_def three_proxies_def info_banned_def ProxyInfo_init_def)
  have wf2: "wf_manager ?m2"
    by (intro wf_manager_mark_proxy_banned wf_manager_mark_proxy_failed
        wf_manager_three_proxies)
  have look2: "map_of (proxies ?m2) ?u = Some ?info2"
    by (simp add: mark_proxy_banned_def mark_proxy_failed_def three_proxies_def
        info_banned_def info_failed_def ProxyInfo_init_def Let_def)
  have st2: "status ?info2 = BANNED" and fc2: "failure_count ?info2 + 1 \<ge> 3"
    by simp_all
  have due2: "check_due ?m2 1000 ?info2"
    by (simp add: check_due_def mark_proxy_banned_def mark_proxy_failed_def
        three_proxies_def ProxyInfo_init_def)
  note t = banned_proxy_transitions [OF wf look st]
  note t2 = banned_proxy_transitions [OF wf2 look2 st2]
  from t [of ?u None 200 "\<lambda>u. ProbeOk (1 / 5)" "1 / 5"] len
  have a: "get_active_proxy banned_among_three 0 \<noteq> Some ?u"
    by simp
  from t [of "''http://p1:8080''" None 200 "\<lambda>u. ProbeOk (1 / 5)" "1 / 5"]
  have b: "status_of (reset_proxy banned_among_three ''http://p1:8080'') ?u = Some BANNED"
    by simp
  from t [of ?u None 200 "\<lambda>u. ProbeOk (1 / 5)" "1 / 5"] fc due(1)
  have c: "status_of (mark_proxy_failed banned_among_three ?u) ?u = Some BANNED"
    and d: "status_of (reset_proxy banned_among_three ?u) ?u = Some ACTIVE"
    and e: "status_of (check_all_proxies banned_among_three 200 (\<lambda>u. ProbeOk (1 / 5))) ?u
           = Some BANNED"
    by simp_all
  from t [of ?u None 1000 "\<lambda>u. ProbeOk (1 / 5)" "1 / 5"] due(2)
  have f: "status_of (check_all_proxies banned_among_three 1000 (\<lambda>u. ProbeOk (1 / 5))) ?u
          = Some ACTIVE"
    by simp
  from t [of ?u None 1000 "\<lambda>u. ProbeCancelled" 0] due(2)
  have g: "status_of (check_all_proxies banned_among_three 1000 (\<lambda>u. ProbeCancelled)) ?u
          = Some CHECKING"
    by simp
  from t2 [of ?u None 1000 "\<lambda>u. ProbeFailed 10" 10] due2 fc2
  have h: "status_of (check_all_proxies ?m2 1000 (\<lambda>u. ProbeFailed 10)) ?u = Some FAILED"
    by simp
  from len a b c d e f g h show ?thesis by simp
qed

section \<open>Results: the failure counter of a proxy\<close>

text \<open>The methods of the manager act on the entry of their URL as the events do.\<close>

lemma manager_methods_are_events:
  "map_of (proxies (mark_proxy_failed m u)) u
     = map_option (\<lambda>i. proxy_step i MarkFailed) (map_of (proxies m) u)"
  "map_of (proxies (mark_proxy_banned m u ip)) u
     = map_option (\<lambda>i. proxy_step i MarkBanned) (map_of (proxies m) u)"
  "map_of (proxies (reset_proxy m u)) u
     = map_option (\<lambda>i. proxy_step i Reset) (map_of (proxies m) u)"
  "check_proxy i now res = proxy_run i [ProbeBegin now, ProbeEnd res]"
  by (simp_all add: map_of_mark_proxy_failed map_of_mark_proxy_banned map_of_reset_proxy
      check_proxy_def proxy_run_def cong: map_option_cong)

lemma proxy_run_snoc: "proxy_run i (evs @ [e]) = proxy_step (proxy_run i evs) e"
  by (simp add: proxy_run_def)

lemma failure_count_step:
  "failure_count (proxy_step i e)
     = (if is_success e \<or> e = Reset then 0
        else if is_failure e then failure_count i + 1
        else failure_count i)"
proof (cases e)
  case (ProbeEnd res)
  then show ?thesis
    by (cases res) (simp_all add: check_proxy_end_def Let_def)
qed (simp_all add: check_proxy_begin_def info_failed_def info_banned_def info_reset_def Let_def)

lemma success_count_step:
  "success_count (proxy_step i e)
     = (if is_success e then success_count i + 1 else success_count i)"
proof (cases e)
  case (ProbeEnd res)
  then show ?thesis
    by (cases res) (simp_all add: check_proxy_end_def Let_def)
qed (simp_all add: check_proxy_begin_def info_failed_def info_banned_def info_reset_def Let_def)

lemma failures_since_success_or_reset_snoc:
  "failures_since_success_or_reset (evs @ [e])
     = (if is_success e \<or> e = Reset then 0
        else if is_failure e then Suc (failures_since_success_or_reset evs)
        else failures_since_success_or_reset evs)"
  by (simp add: failures_since_success_or_reset_def)

lemma failure_count_run:
  "failure_count (proxy_run (ProxyInfo_init u) evs)
     = int (failures_since_success_or_reset evs)"
proof (induction evs rule: rev_induct)
  case Nil
  show ?case
    by (simp add: proxy_run_def ProxyInfo_init_def failures_since_success_or_reset_def)
next
  case (snoc e evs)
  then show ?case
    by (simp add: proxy_run_snoc failure_count_step failures_since_success_or_reset_snoc)
qed

lemma success_count_run:
  "success_count (proxy_run (ProxyInfo_init u) evs) = int (length (filter is_success evs))"
proof (induction evs rule: rev_induct)
  case Nil
  show ?case
    by (simp add: proxy_run_def ProxyInfo_init_def)
next
  case (snoc e evs)
  then show ?case
    by (simp add: proxy_run_snoc success_count_step)
qed

text \<open>
  C10 as stated fails: \<open>reset_proxy\<close> also sets \<open>failure_count\<close> to 0. After a
  successful probe, a failure, a reset and another failure the counter is 1 and the
  success rate 1/2, while two failures were recorded since the last successful probe,
  which would give 1/3.
\<close>

theorem failure_count_reset_counterexample:
  "failure_count (proxy_run (ProxyInfo_init ''http://p1:8080'')
       [ProbeBegin 1000, ProbeEnd (ProbeOk 1), MarkFailed, Reset, MarkFailed]) = 1
   \<and> failures_since_success
       [ProbeBegin 1000, ProbeEnd (ProbeOk 1), MarkFailed, Reset, MarkFailed] = 2
   \<and> success_rate (proxy_run (ProxyInfo_init ''http://p1:8080'')
       [ProbeBegin 1000, ProbeEnd (ProbeOk 1), MarkFailed, Reset, MarkFailed]) = 1 / 2
   \<and> success_rate (proxy_run (ProxyInfo_init ''http://p1:8080'')
       [ProbeBegin 1000, ProbeEnd (ProbeOk 1), MarkFailed, Reset, MarkFailed])
       \<noteq> 1 / (1 + real (failures_since_success
             [ProbeBegin 1000, ProbeEnd (ProbeOk 1), MarkFailed, Reset, MarkFailed]))"
  by (simp add: proxy_run_def ProxyInfo_init_def check_proxy_begin_def check_proxy_end_def
      info_failed_def info_reset_def failures_since_success_def success_rate_def Let_def)

text \<open>
  C10, amended. A successful probe sets \<open>failure_count\<close> to 0, and so does
  \<open>reset_proxy\<close>. For a proxy created by the manager and any sequence of probes,
  reported failures, bans and resets, \<open>failure_count\<close> is the number of failures
  recorded since the last successful probe or reset (since creation when there was
  none), \<open>success_count\<close> is the number of successful probes, and \<open>success_rate\<close> is
  \<open>success_count / (success_count + that number)\<close>, or 0 when both are 0: not a ratio
  over all failures ever recorded.
\<close>

theorem failure_count_is_streak:
  "failure_count (check_proxy_end info (ProbeOk elapsed)) = 0
   \<and> failure_count (info_reset info) = 0
   \<and> failure_count (proxy_run (ProxyInfo_init u) evs)
       = int (failures_since_success_or_reset evs)
   \<and> success_count (proxy_run (ProxyInfo_init u) evs)
       = int (length (filter is_success evs))
   \<and> success_rate (proxy_run (ProxyInfo_init u) evs)
       = (if length (filter is_success evs) + failures_since_success_or_reset evs > 0
          then real (length (filter is_success evs))
               / real (length (filter is_success evs) + failures_since_success_or_reset evs)
          else 0)"
proof (intro conjI)
  show "failure_count (check_proxy_end info (ProbeOk elapsed)) = 0"
    by (simp add: check_proxy_end_def)
  show "failure_count (info_reset info) = 0"
    by (simp add: info_reset_def)
  show "failure_count (proxy_run (ProxyInfo_init u) evs)
       = int (failures_since_success_or_reset evs)"
    by (rule failure_count_run)
  show "success_count (proxy_run (ProxyInfo_init u) evs)
       = int (length (filter is_success evs))"
    by (rule success_count_run)
  show "success_rate (proxy_run (ProxyInfo_init u) evs)
       = (if length (filter is_success evs) + failures_since_success_or_reset evs > 0
          then real (length (filter is_success evs))
               / real (length (filter is_success evs) + failures_since_success_or_reset evs)
          else 0)"
    unfolding success_rate_def Let_def failure_count_run success_count_run
    by (simp flip: of_nat_add)
qed

text \<open>
  An instance: one reported failure followed by a successful probe gives the rate 1,
  where the ratio over all recorded failures would be 1/2.
\<close>

lemma lifetime_ratio_example:
  "success_rate (proxy_run (ProxyInfo_init ''http://p1:8080'')
       [MarkFailed, ProbeBegin 1000, ProbeEnd (ProbeOk 1)]) = 1
   \<and> length (filter is_failure [MarkFailed, ProbeBegin 1000, ProbeEnd (ProbeOk 1)]) = 1"
  by (simp add: proxy_run_def ProxyInfo_init_def check_proxy_begin_def check_proxy_end_def
      info_failed_def success_rate_def Let_def)

end
